theory Spec2Isabelle
  imports Main "HOL-Library.Sublist" "HOL-Library.AList"
begin

section \<open>JavaScript strings\<close>

text \<open>
  The verifier (class \<open>FilfoxVerifier\<close>) works on JavaScript strings. A string is modelled
  as a \<open>char list\<close>; a \<open>char\<close> stands for one code unit in the range 0..255.
  \<open>startsWith\<close> is \<open>prefix\<close> with its arguments swapped.
\<close>

text \<open>\<open>s.indexOf(p)\<close>: the position of the first occurrence of \<open>p\<close> in \<open>s\<close>.\<close>

fun indexOf :: "string \<Rightarrow> string \<Rightarrow> nat option" where
  "indexOf [] p = (if p = [] then Some 0 else None)"
| "indexOf (c # cs) p =
     (if prefix p (c # cs) then Some 0 else map_option Suc (indexOf cs p))"

text \<open>\<open>s.includes(p)\<close>.\<close>

definition str_includes :: "string \<Rightarrow> string \<Rightarrow> bool" where
  "str_includes s p = (indexOf s p \<noteq> None)"

text \<open>
  \<open>s.split(sep)\<close> for a separator of one character: the pieces between the
  separators, empty pieces included; the empty string gives one empty piece.
\<close>

fun split :: "char \<Rightarrow> string \<Rightarrow> string list" where
  "split sep [] = [[]]"
| "split sep (c # cs) =
     (if c = sep then [] # split sep cs
      else (case split sep cs of [] \<Rightarrow> [[c]] | p # ps \<Rightarrow> (c # p) # ps))"

text \<open>
  White space and line terminators, as \<open>trim\<close> and the regular expression class
  \<open>\s\<close> read them, among the code units 0..255: tab, line feed, vertical tab, form feed,
  carriage return, space and no-break space.
\<close>

definition isWhiteSpace :: "char \<Rightarrow> bool" where
  "isWhiteSpace c =
     (c \<in> set [CHR 0x09, CHR 0x0A, CHR 0x0B, CHR 0x0C, CHR 0x0D, CHR 0x20, CHR 0xA0])"

definition trim :: "string \<Rightarrow> string" where
  "trim s = rev (dropWhile isWhiteSpace (rev (dropWhile isWhiteSpace s)))"

text \<open>
  The replacement text of \<open>String.prototype.replace\<close> (GetSubstitution): in the
  replacement, \<open>$$\<close> stands for a dollar sign, \<open>$&\<close> for the matched text, \<open>$`\<close> for
  the text before the match and \<open>$'\<close> for the text after it. With a string pattern there
  are no capture groups, so every other use of \<open>$\<close> stays as it is.
\<close>

fun getSubstitution :: "string \<Rightarrow> string \<Rightarrow> string \<Rightarrow> string \<Rightarrow> string" where
  "getSubstitution matched pre post [] = []"
| "getSubstitution matched pre post [c] = [c]"
| "getSubstitution matched pre post (c # d # r) =
     (if c = CHR ''$'' \<and> d = CHR ''$'' then CHR ''$'' # getSubstitution matched pre post r
      else if c = CHR ''$'' \<and> d = CHR ''&'' then matched @ getSubstitution matched pre post r
      else if c = CHR ''$'' \<and> d = CHR 0x60 then pre @ getSubstitution matched pre post r
      else if c = CHR ''$'' \<and> d = CHR 0x27 then post @ getSubstitution matched pre post r
      else c # getSubstitution matched pre post (d # r))"

text \<open>
  \<open>s.replace(pat, repl)\<close> with a string pattern: the first occurrence of \<open>pat\<close> is
  replaced, none when \<open>pat\<close> does not occur.
\<close>

definition replace :: "string \<Rightarrow> string \<Rightarrow> string \<Rightarrow> string" where
  "replace s pat repl =
     (case indexOf s pat of
        None \<Rightarrow> s
      | Some i \<Rightarrow>
          take i s
          @ getSubstitution pat (take i s) (drop (i + length pat) s) repl
          @ drop (i + length pat) s)"

text \<open>Errors that the code can raise: a value of this type is a thrown exception.\<close>

datatype js_error =
    TypeError
  | UnsupportedChainId int
  | TransportFailure

section \<open>Remapping rules and the compiler version\<close>

record Remapping =
  original :: string
  resolved :: string

text \<open>
  \<open>parseRemappings\<close>: every rule is split at each \<open>=\<close>; the destructuring
  \<open>[original, resolved]\<close> takes the first two pieces, and \<open>resolved\<close> is
  \<open>undefined\<close> when there is one piece only, so that \<open>resolved.trim()\<close> raises a
  TypeError. \<open>Array.prototype.map\<close> stops at the first rule that raises.
\<close>

definition parseRemapping :: "string \<Rightarrow> js_error + Remapping" where
  "parseRemapping mapping =
     (case split CHR ''='' mapping of
        [] \<Rightarrow> Inl TypeError
      | [orig] \<Rightarrow> Inl TypeError
      | orig # res # _ \<Rightarrow> Inr \<lparr>original = trim orig, resolved = trim res\<rparr>)"

fun parseRemappings :: "string list \<Rightarrow> js_error + Remapping list" where
  "parseRemappings [] = Inr []"
| "parseRemappings (mapping # rest) =
     (case parseRemapping mapping of
        Inl e \<Rightarrow> Inl e
      | Inr r \<Rightarrow> (case parseRemappings rest of Inl e \<Rightarrow> Inl e | Inr rs \<Rightarrow> Inr (r # rs)))"

text \<open>\<open>normalizeCompilerVersion\<close>: the test is \<open>compiler.includes("v")\<close>.\<close>

definition normalizeCompilerVersion :: "string \<Rightarrow> string" where
  "normalizeCompilerVersion compiler =
     (if str_includes compiler ''v'' then compiler else ''v'' @ compiler)"

section \<open>The import extractor\<close>

text \<open>
  \<open>extractImports\<close> scans the text with four regular expressions. Each of them is a
  sequence of character classes, each class taken once, or repeated with \<open>*\<close> or
  \<open>+\<close> (both greedy), and one group \<open>([^"']+)\<close> is captured. The model keeps
  that shape: an item is a class, its quantifier, and whether it lies in the captured group.
\<close>

datatype cls = Lit char | OneOf "char list" | NoneOf "char list" | Space | Word

datatype quant = One | Star | Plus

type_synonym ritem = "cls \<times> quant \<times> bool"

text \<open>The class \<open>\w\<close>.\<close>

definition isWordChar :: "char \<Rightarrow> bool" where
  "isWordChar c =
     (c \<in> set ''abcdefghijklmnopqrstuvwxyzABCDEFGHIJKLMNOPQRSTUVWXYZ0123456789_'')"

fun cls_matches :: "cls \<Rightarrow> char \<Rightarrow> bool" where
  "cls_matches (Lit a) c = (c = a)"
| "cls_matches (OneOf as) c = (c \<in> set as)"
| "cls_matches (NoneOf as) c = (c \<notin> set as)"
| "cls_matches Space c = isWhiteSpace c"
| "cls_matches Word c = isWordChar c"

definition keep :: "bool \<Rightarrow> char \<Rightarrow> string \<times> string \<Rightarrow> string \<times> string" where
  "keep cap c r = (if cap then (c # fst r, snd r) else r)"

text \<open>
  A match of the items at the start of the text, by backtracking: a repeated class first
  takes one more character and gives it back when the rest of the pattern then fails.
  The result is the captured text and the text after the match.
\<close>

fun rmatch :: "ritem list \<Rightarrow> string \<Rightarrow> (string \<times> string) option" where
  "rmatch [] s = Some ([], s)"
| "rmatch ((k, One, cap) # its) [] = None"
| "rmatch ((k, One, cap) # its) (c # cs) =
     (if cls_matches k c then map_option (keep cap c) (rmatch its cs) else None)"
| "rmatch ((k, Plus, cap) # its) [] = None"
| "rmatch ((k, Plus, cap) # its) (c # cs) =
     (if cls_matches k c then map_option (keep cap c) (rmatch ((k, Star, cap) # its) cs)
      else None)"
| "rmatch ((k, Star, cap) # its) [] = rmatch its []"
| "rmatch ((k, Star, cap) # its) (c # cs) =
     (if cls_matches k c
      then (case rmatch ((k, Star, cap) # its) cs of
              Some r \<Rightarrow> Some (keep cap c r)
            | None \<Rightarrow> rmatch its (c # cs))
      else rmatch its (c # cs))"

text \<open>
  The loop \<open>while ((match = regex.exec(content)) !== null)\<close> of a regular expression
  with the flag \<open>g\<close>: each call searches from \<open>lastIndex\<close> for the first position
  where the pattern matches, and sets \<open>lastIndex\<close> to the end of the match. The result
  lists \<open>match[1]\<close> of the successive calls. Each of the four patterns starts with the
  letter \<open>i\<close>, so no match is empty and the search always advances; the branch for an
  empty match is never taken for them (lemma \<open>execAll_importRegexes\<close>).
\<close>

function execAll :: "ritem list \<Rightarrow> string \<Rightarrow> string list" where
  "execAll re s =
     (case rmatch re s of
        Some (cap, rest) \<Rightarrow> if length rest < length s then cap # execAll re rest else [cap]
      | None \<Rightarrow> (case s of [] \<Rightarrow> [] | _ # t \<Rightarrow> execAll re t))"
  by pat_completeness auto
termination
  by (relation "measure (\<lambda>(re, s). length s)") auto

declare execAll.simps [simp del]

definition lits :: "string \<Rightarrow> ritem list" where
  "lits s = map (\<lambda>c. (Lit c, One, False)) s"

text \<open>The tail \<open>["']([^"']+)["']\<close> that the four patterns share.\<close>

definition quoted :: "ritem list" where
  "quoted =
     [(OneOf [CHR 0x22, CHR 0x27], One, False),
      (NoneOf [CHR 0x22, CHR 0x27], Plus, True),
      (OneOf [CHR 0x22, CHR 0x27], One, False)]"

definition importRegexes :: "ritem list list" where
  "importRegexes =
     [lits ''import'' @ [(Space, Plus, False)] @ quoted,
      lits ''import'' @ [(Space, Star, False), (Lit CHR ''{'', One, False),
        (NoneOf [CHR ''}''], Star, False), (Lit CHR ''}'', One, False), (Space, Star, False)]
        @ lits ''from'' @ [(Space, Plus, False)] @ quoted,
      lits ''import'' @ [(Space, Plus, False), (Lit CHR ''*'', One, False), (Space, Plus, False)]
        @ lits ''as'' @ [(Space, Plus, False), (Word, Plus, False), (Space, Plus, False)]
        @ lits ''from'' @ [(Space, Plus, False)] @ quoted,
      lits ''import'' @ [(Space, Plus, False), (Word, Plus, False), (Space, Plus, False)]
        @ lits ''from'' @ [(Space, Plus, False)] @ quoted]"

text \<open>\<open>if (importPath && !imports.includes(importPath)) imports.push(importPath)\<close>.\<close>

definition pushImport :: "string list \<Rightarrow> string \<Rightarrow> string list" where
  "pushImport imports importPath =
     (if importPath \<noteq> [] \<and> importPath \<notin> set imports then imports @ [importPath]
      else imports)"

definition extractImports :: "string \<Rightarrow> string list" where
  "extractImports content =
     foldl (\<lambda>imports regex. foldl pushImport imports (execAll regex content)) [] importRegexes"

section \<open>Objects keyed by path\<close>

record SourceFile =
  content :: string

text \<open>
  A \<open>Record<string, SourceFile>\<close> is a JavaScript object. It is modelled by the list of
  its own properties in the order in which \<open>Object.keys\<close> and \<open>Object.entries\<close>
  enumerate them: the keys that are array indices first, in ascending numeric order, then
  the other keys in the order of their creation. An object that the caller supplies is given as such a list.
\<close>

type_synonym 'v obj = "(string \<times> 'v) list"

definition toNumber :: "string \<Rightarrow> int" where
  "toNumber k = foldl (\<lambda>n c. 10 * n + (of_char c - 48)) 0 k"

text \<open>An array index: the canonical decimal text of an integer below \<open>2^32 - 1\<close>.\<close>

definition isArrayIndex :: "string \<Rightarrow> bool" where
  "isArrayIndex k =
     (k \<noteq> [] \<and> list_all (\<lambda>c. c \<in> set ''0123456789'') k
      \<and> (length k = 1 \<or> hd k \<noteq> CHR ''0'') \<and> toNumber k < 4294967295)"

fun insertIndexKey :: "string \<Rightarrow> 'v \<Rightarrow> 'v obj \<Rightarrow> 'v obj" where
  "insertIndexKey k v [] = [(k, v)]"
| "insertIndexKey k v (p # ps) =
     (if isArrayIndex (fst p) \<and> toNumber (fst p) < toNumber k
      then p # insertIndexKey k v ps else (k, v) # p # ps)"

text \<open>
  Creating or overwriting an own property (CreateDataProperty, as the object spread
  does): an existing key keeps its place.
\<close>

definition defineProperty :: "string \<Rightarrow> 'v \<Rightarrow> 'v obj \<Rightarrow> 'v obj" where
  "defineProperty k v ob =
     (if k \<in> fst ` set ob then AList.update k v ob
      else if isArrayIndex k then insertIndexKey k v ob
      else ob @ [(k, v)])"

text \<open>
  The objects of the code are ordinary objects, whose prototype is \<open>Object.prototype\<close>.
  A read \<open>ob[k]\<close> of a key that is not an own property finds the member of
  \<open>Object.prototype\<close> of that name, when there is one; each of them is a function or an
  object, hence truthy, and none has a property \<open>content\<close>.
\<close>

definition objectPrototypeNames :: "string list" where
  "objectPrototypeNames =
     [''constructor'', ''__defineGetter__'', ''__defineSetter__'', ''hasOwnProperty'',
      ''__lookupGetter__'', ''__lookupSetter__'', ''isPrototypeOf'', ''propertyIsEnumerable'',
      ''toString'', ''valueOf'', ''__proto__'', ''toLocaleString'']"

text \<open>What a read finds: a source file, or the inherited member of the given name.\<close>

datatype entry = File SourceFile | Inherited string

definition getProp :: "SourceFile obj \<Rightarrow> string \<Rightarrow> entry option" where
  "getProp ob k =
     (case map_of ob k of
        Some f \<Rightarrow> Some (File f)
      | None \<Rightarrow> if k \<in> set objectPrototypeNames then Some (Inherited k) else None)"

text \<open>
  An assignment \<open>ob[k] = v\<close>: the key \<open>__proto__\<close> is the accessor of
  \<open>Object.prototype\<close>, and assigning to it creates no own property.
\<close>

definition setProp :: "string \<Rightarrow> 'v \<Rightarrow> 'v obj \<Rightarrow> 'v obj" where
  "setProp k v ob = (if k = ''__proto__'' then ob else defineProperty k v ob)"

text \<open>The object spread \<open>{...a, ...b}\<close>.\<close>

definition spread :: "'v obj \<Rightarrow> 'v obj \<Rightarrow> 'v obj" where
  "spread a b = foldl (\<lambda>ob (k, v). defineProperty k v ob) [] (a @ b)"

text \<open>
  \<open>entry.content\<close>, as \<open>RegExp.prototype.exec\<close> reads it: the content of a source
  file; for an inherited member it is \<open>undefined\<close>, which \<open>exec\<close> converts to the
  text \<open>undefined\<close>.
\<close>

definition contentText :: "entry \<Rightarrow> string" where
  "contentText e = (case e of File f \<Rightarrow> content f | Inherited _ \<Rightarrow> ''undefined'')"

text \<open>\<open>createRemappedSourceFiles\<close>.\<close>

definition createRemappedSourceFiles :: "SourceFile obj \<Rightarrow> Remapping list \<Rightarrow> SourceFile obj" where
  "createRemappedSourceFiles sourceFiles remappings =
     foldl (\<lambda>remappedFiles (filePath, fileContent).
              case find (\<lambda>mapping. prefix (resolved mapping) filePath) remappings of
                None \<Rightarrow> remappedFiles
              | Some remapping \<Rightarrow>
                  setProp (replace filePath (resolved remapping) (original remapping))
                    fileContent remappedFiles)
       [] sourceFiles"

section \<open>Paths\<close>

text \<open>
  The functions of Node's module \<open>path\<close> that the resolver calls, in their POSIX form
  (the separator is \<open>/\<close>).
\<close>

definition joinSegments :: "string list \<Rightarrow> string" where
  "joinSegments segs = (case segs of [] \<Rightarrow> [] | a # r \<Rightarrow> a @ concat (map (\<lambda>x. CHR ''/'' # x) r))"

text \<open>
  The segments of a normalized path: empty segments and \<open>.\<close> are dropped, and \<open>..\<close>
  removes the segment before it; where there is none to remove, \<open>..\<close> is kept in a
  relative path and dropped in an absolute one.
\<close>

fun normalizeString :: "bool \<Rightarrow> string list \<Rightarrow> string list \<Rightarrow> string list" where
  "normalizeString allowAboveRoot res [] = res"
| "normalizeString allowAboveRoot res (seg # segs) =
     (if seg = [] \<or> seg = ''.'' then normalizeString allowAboveRoot res segs
      else if seg = ''..'' then
        (if res \<noteq> [] \<and> last res \<noteq> ''..''
         then normalizeString allowAboveRoot (butlast res) segs
         else if allowAboveRoot then normalizeString allowAboveRoot (res @ [''..'']) segs
         else normalizeString allowAboveRoot res segs)
      else normalizeString allowAboveRoot (res @ [seg]) segs)"

definition normalize :: "string \<Rightarrow> string" where
  "normalize p =
     (if p = [] then ''.''
      else
        let isAbsolute = (hd p = CHR ''/'');
            trailingSeparator = (last p = CHR ''/'');
            q = joinSegments (normalizeString (\<not> isAbsolute) [] (split CHR ''/'' p))
        in if q = [] then (if isAbsolute then ''/'' else if trailingSeparator then ''./'' else ''.'')
           else (if isAbsolute then ''/'' else []) @ q @ (if trailingSeparator then ''/'' else []))"

text \<open>\<open>path.join(a, b)\<close>: the non-empty arguments joined by \<open>/\<close>, normalized.\<close>

definition join :: "string \<Rightarrow> string \<Rightarrow> string" where
  "join a b =
     (case filter (\<lambda>arg. arg \<noteq> []) [a, b] of
        [] \<Rightarrow> ''.''
      | args \<Rightarrow> normalize (joinSegments args))"

text \<open>
  \<open>path.dirname\<close>: the text before the last separator that precedes the last segment;
  trailing separators are skipped and the first character is not looked at.
\<close>

definition dirname :: "string \<Rightarrow> string" where
  "dirname p =
     (if p = [] then ''.''
      else
        let hasRoot = (hd p = CHR ''/'');
            r = dropWhile (\<lambda>c. c \<noteq> CHR ''/'') (dropWhile (\<lambda>c. c = CHR ''/'') (rev (tl p)))
        in if r = [] then (if hasRoot then ''/'' else ''.'')
           else if hasRoot \<and> length r = 1 then ''//''
           else take (length r) p)"

text \<open>\<open>path.basename\<close>: the last segment, trailing separators skipped.\<close>

definition basename :: "string \<Rightarrow> string" where
  "basename p = rev (takeWhile (\<lambda>c. c \<noteq> CHR ''/'') (dropWhile (\<lambda>c. c = CHR ''/'') (rev p)))"

section \<open>The import path resolver\<close>

text \<open>\<open>resolveRelativeImport\<close>.\<close>

definition resolveRelativeImport :: "string \<Rightarrow> string \<Rightarrow> string" where
  "resolveRelativeImport importPath currentFile =
     normalize (join (dirname currentFile) importPath)"

text \<open>
  \<open>resolveRemappedImport\<close>. \<open>Array.prototype.sort\<close> is stable, and the comparison
  \<open>b.original.length - a.original.length\<close> orders the rules by descending length of
  \<open>original\<close>; \<open>sort_key\<close> is a stable sort too, and the stable sort of a list by a
  key is unique.
\<close>

definition resolveRemappedImport :: "string \<Rightarrow> Remapping list \<Rightarrow> string option" where
  "resolveRemappedImport importPath remappings =
     (case sort_key (\<lambda>mapping. - int (length (original mapping)))
             (filter (\<lambda>mapping. prefix (original mapping) importPath) remappings) of
        [] \<Rightarrow> None
      | mapping # _ \<Rightarrow> Some (replace importPath (original mapping) (resolved mapping)))"

text \<open>\<open>pathContextMatches\<close>.\<close>

definition pathSegments :: "string \<Rightarrow> string list" where
  "pathSegments p = filter (\<lambda>s. s \<noteq> [] \<and> s \<noteq> ''.'' \<and> s \<noteq> ''..'') (split CHR ''/'' p)"

definition pathContextMatches :: "string \<Rightarrow> string \<Rightarrow> bool" where
  "pathContextMatches importPath availablePath =
     (let importSegments = pathSegments importPath;
          availableSegments = pathSegments availablePath;
          matches = length (filter (\<lambda>segment. segment \<in> set availableSegments) importSegments)
      in max 1 (int (length importSegments) - 1) \<le> int matches)"

text \<open>
  The four strategies of \<open>resolveImportPath\<close>, in the order of the code. Each gives the
  resolved path with what the available files hold there, or nothing.
\<close>

definition directImport :: "string \<Rightarrow> SourceFile obj \<Rightarrow> (string \<times> entry) option" where
  "directImport importPath availableFiles =
     map_option (Pair importPath) (getProp availableFiles importPath)"

definition relativeImport :: "string \<Rightarrow> string \<Rightarrow> SourceFile obj \<Rightarrow> (string \<times> entry) option" where
  "relativeImport importPath currentFile availableFiles =
     (if prefix ''./'' importPath \<or> prefix ''../'' importPath
      then (let resolvedPath = resolveRelativeImport importPath currentFile
            in map_option (Pair resolvedPath) (getProp availableFiles resolvedPath))
      else None)"

text \<open>\<open>remappedPath && availableFiles[remappedPath]\<close>: the empty path is falsy.\<close>

definition remappedImport ::
  "string \<Rightarrow> Remapping list \<Rightarrow> SourceFile obj \<Rightarrow> (string \<times> entry) option" where
  "remappedImport importPath remappings availableFiles =
     (case resolveRemappedImport importPath remappings of
        None \<Rightarrow> None
      | Some remappedPath \<Rightarrow>
          if remappedPath = [] then None
          else map_option (Pair remappedPath) (getProp availableFiles remappedPath))"

definition filenameImport :: "string \<Rightarrow> SourceFile obj \<Rightarrow> (string \<times> entry) option" where
  "filenameImport importPath availableFiles =
     (case find (\<lambda>(filePath, fileContent).
                   basename filePath = basename importPath
                   \<and> pathContextMatches importPath filePath) availableFiles of
        None \<Rightarrow> None
      | Some (filePath, fileContent) \<Rightarrow> Some (filePath, File fileContent))"

text \<open>The warning that \<open>console.warn\<close> prints: the import and the file that names it.\<close>

datatype diagnostic = CouldNotResolveImport string string

text \<open>\<open>resolveImportPath\<close>: the result, and the warnings printed on the way.\<close>

definition resolveImportPath ::
  "string \<Rightarrow> string \<Rightarrow> Remapping list \<Rightarrow> SourceFile obj
   \<Rightarrow> (string \<times> entry) option \<times> diagnostic list" where
  "resolveImportPath importPath currentFile remappings availableFiles =
     (case directImport importPath availableFiles of
        Some r \<Rightarrow> (Some r, [])
      | None \<Rightarrow>
     (case relativeImport importPath currentFile availableFiles of
        Some r \<Rightarrow> (Some r, [])
      | None \<Rightarrow>
     (case remappedImport importPath remappings availableFiles of
        Some r \<Rightarrow> (Some r, [])
      | None \<Rightarrow>
     (case filenameImport importPath availableFiles of
        Some r \<Rightarrow> (Some r, [])
      | None \<Rightarrow> (None, [CouldNotResolveImport importPath currentFile])))))"

section \<open>The closure builder\<close>

record ImportResolver =
  sourceFiles :: "SourceFile obj"
  remappedSourceFiles :: "SourceFile obj"
  remappings :: "Remapping list"

text \<open>The test \<open>hasRemappedVersion\<close> of the second seeding loop.\<close>

definition hasRemappedVersion :: "ImportResolver \<Rightarrow> string \<Rightarrow> bool" where
  "hasRemappedVersion resolver originalPath =
     list_ex (\<lambda>remappedPath.
        list_ex (\<lambda>mapping.
           prefix (resolved mapping) originalPath
           \<and> remappedPath = replace originalPath (resolved mapping) (original mapping))
          (remappings resolver))
       (map fst (remappedSourceFiles resolver))"

text \<open>The queue before the traversal: the remapped paths, then the originals without one.\<close>

definition seedQueue :: "ImportResolver \<Rightarrow> string list" where
  "seedQueue resolver =
     map fst (remappedSourceFiles resolver)
     @ filter (\<lambda>originalPath. \<not> hasRemappedVersion resolver originalPath)
         (map fst (sourceFiles resolver))"

text \<open>
  One round of the loop over the imports of the current file: the queue and the
  warnings after it.
\<close>

definition enqueueImport ::
  "Remapping list \<Rightarrow> SourceFile obj \<Rightarrow> string \<Rightarrow> string list
   \<Rightarrow> string list \<times> diagnostic list \<Rightarrow> string \<Rightarrow> string list \<times> diagnostic list" where
  "enqueueImport rms availableFiles currentFile processed st importPath =
     (case resolveImportPath importPath currentFile rms availableFiles of
        (Some (p, e), warned) \<Rightarrow>
          (if p \<notin> set processed then fst st @ [p] else fst st, snd st @ warned)
      | (None, warned) \<Rightarrow> (fst st, snd st @ warned))"

definition enqueueImports ::
  "Remapping list \<Rightarrow> SourceFile obj \<Rightarrow> string \<Rightarrow> string list
   \<Rightarrow> string list \<Rightarrow> string list \<times> diagnostic list \<Rightarrow> string list \<times> diagnostic list" where
  "enqueueImports rms availableFiles currentFile processed imports st =
     foldl (enqueueImport rms availableFiles currentFile processed) st imports"

text \<open>
  Every path that the resolver returns is a key of the available files or the name of a
  member of \<open>Object.prototype\<close>; so the paths that the traversal can visit are finitely
  many, and the loop below ends.
\<close>

lemma getProp_Some_known:
  "getProp ob k = Some e \<Longrightarrow> k \<in> fst ` set ob \<union> set objectPrototypeNames"
  by (auto simp: getProp_def split: option.splits if_splits dest: map_of_SomeD intro: rev_image_eqI)

lemma find_Some_mem: "find P xs = Some x \<Longrightarrow> x \<in> set xs"
  by (induction xs) (auto split: if_splits)

lemma resolveImportPath_known:
  assumes "resolveImportPath importPath currentFile rms av = (Some (p, e), warned)"
  shows "p \<in> fst ` set av \<union> set objectPrototypeNames"
  using assms
  unfolding resolveImportPath_def directImport_def relativeImport_def remappedImport_def
    filenameImport_def Let_def
  by (auto split: option.splits if_splits prod.splits
      dest!: getProp_Some_known find_Some_mem intro: rev_image_eqI)

lemma enqueueImport_known:
  "set (fst (enqueueImport rms av currentFile processed st importPath))
     \<subseteq> set (fst st) \<union> fst ` set av \<union> set objectPrototypeNames"
  unfolding enqueueImport_def
  by (auto split: prod.splits option.splits dest: resolveImportPath_known)

lemma enqueueImports_known:
  "set (fst (enqueueImports rms av currentFile processed imps st))
     \<subseteq> set (fst st) \<union> fst ` set av \<union> set objectPrototypeNames"
  unfolding enqueueImports_def
proof (induction imps arbitrary: st)
  case Nil
  show ?case by auto
next
  case (Cons i imps)
  show ?case
    using Cons.IH [of "enqueueImport rms av currentFile processed st i"]
      enqueueImport_known [of rms av currentFile processed st i]
    by auto
qed

text \<open>
  The loop \<open>while (queue.length > 0)\<close> of \<open>resolveNecessaryImports\<close>, with the
  object \<open>necessaryFiles\<close>, the set \<open>processed\<close>, the queue and the warnings printed
  so far as its state.
\<close>

function traverse ::
  "Remapping list \<Rightarrow> SourceFile obj \<Rightarrow> entry obj \<Rightarrow> string list \<Rightarrow> string list
   \<Rightarrow> diagnostic list \<Rightarrow> entry obj \<times> diagnostic list" where
  "traverse rms allAvailableFiles necessaryFiles processed [] warned = (necessaryFiles, warned)"
| "traverse rms allAvailableFiles necessaryFiles processed (currentFile # queue) warned =
     (if currentFile \<in> set processed
      then traverse rms allAvailableFiles necessaryFiles processed queue warned
      else
        (case getProp allAvailableFiles currentFile of
           None \<Rightarrow>
             traverse rms allAvailableFiles necessaryFiles (processed @ [currentFile]) queue warned
         | Some e \<Rightarrow>
             (case enqueueImports rms allAvailableFiles currentFile (processed @ [currentFile])
                     (extractImports (contentText e)) (queue, warned) of
                (queue', warned') \<Rightarrow>
                  traverse rms allAvailableFiles (setProp currentFile e necessaryFiles)
                    (processed @ [currentFile]) queue' warned')))"
  by pat_completeness auto
termination
proof (relation "measures
    [\<lambda>(rms, av, nec, processed, queue, warned).
        card ((set queue \<union> fst ` set av \<union> set objectPrototypeNames) - set processed),
     \<lambda>(rms, av, nec, processed, queue, warned). length queue]", goal_cases)
  case 1
  show ?case by simp
next
  case (2 rms av nec processed currentFile queue warned)
  then have "(insert currentFile (set queue) \<union> fst ` set av \<union> set objectPrototypeNames) - set processed
           = (set queue \<union> fst ` set av \<union> set objectPrototypeNames) - set processed"
    by auto
  then show ?case by simp
next
  case (3 rms av nec processed currentFile queue warned)
  have "(set queue \<union> fst ` set av \<union> set objectPrototypeNames) - set (processed @ [currentFile])
        \<subset> (set (currentFile # queue) \<union> fst ` set av \<union> set objectPrototypeNames) - set processed"
    using 3 by auto
  then have "card ((set queue \<union> fst ` set av \<union> set objectPrototypeNames) - set (processed @ [currentFile]))
        < card ((set (currentFile # queue) \<union> fst ` set av \<union> set objectPrototypeNames) - set processed)"
    by (intro psubset_card_mono) auto
  then show ?case by simp
next
  case (4 rms av nec processed currentFile queue warned e queue' warned')
  have sub: "set queue' \<subseteq> set queue \<union> fst ` set av \<union> set objectPrototypeNames"
    using enqueueImports_known [of rms av currentFile "processed @ [currentFile]"
        "extractImports (contentText e)" "(queue, warned)"] 4(3) [symmetric]
    by simp
  have "(set queue' \<union> fst ` set av \<union> set objectPrototypeNames) - set (processed @ [currentFile])
        \<subset> (set (currentFile # queue) \<union> fst ` set av \<union> set objectPrototypeNames) - set processed"
    using 4(1) sub by auto
  then have "card ((set queue' \<union> fst ` set av \<union> set objectPrototypeNames) - set (processed @ [currentFile]))
        < card ((set (currentFile # queue) \<union> fst ` set av \<union> set objectPrototypeNames) - set processed)"
    by (intro psubset_card_mono) auto
  then show ?case using 4(3) [symmetric] by simp
qed

text \<open>\<open>resolveNecessaryImports\<close>: the necessary files, and the warnings printed.\<close>

definition allAvailableFiles :: "ImportResolver \<Rightarrow> SourceFile obj" where
  "allAvailableFiles resolver = spread (sourceFiles resolver) (remappedSourceFiles resolver)"

definition resolveNecessaryImports :: "ImportResolver \<Rightarrow> entry obj \<times> diagnostic list" where
  "resolveNecessaryImports resolver =
     traverse (remappings resolver) (allAvailableFiles resolver) [] [] (seedQueue resolver) []"

section \<open>The verifier\<close>

record FilfoxVerifier =
  baseUrl :: string
  chainId :: int

text \<open>
  The table \<open>FILFOX_NETWORKS\<close>. The chain id is a number and the table is read at the
  decimal text of that number, which is \<open>314\<close> or \<open>314159\<close> for these two numbers
  only, and never the name of a member of \<open>Object.prototype\<close>.
\<close>

definition FILFOX_NETWORKS :: "int \<Rightarrow> string option" where
  "FILFOX_NETWORKS n =
     (if n = 314 then Some ''https://filfox.info/api/v1/tools/verifyContract''
      else if n = 314159 then Some ''https://calibration.filfox.info/api/v1/tools/verifyContract''
      else None)"

text \<open>
  The constructor: \<open>if (!this.baseUrl) throw new Error(...)\<close>; \<open>undefined\<close> and the
  empty text are falsy.
\<close>

definition newFilfoxVerifier :: "int \<Rightarrow> js_error + FilfoxVerifier" where
  "newFilfoxVerifier n =
     (case FILFOX_NETWORKS n of
        None \<Rightarrow> Inl (UnsupportedChainId n)
      | Some url \<Rightarrow>
          if url = [] then Inl (UnsupportedChainId n)
          else Inr \<lparr>baseUrl = url, chainId = n\<rparr>)"

text \<open>
  The field \<open>metadata\<close> of a request has the type \<open>any\<close>. The code reads
  \<open>request.metadata.settings.remappings\<close>, so the model keeps that much of it: each of the
  three may be missing, and reading a property of a missing object, or calling \<open>map\<close> on a
  missing array, raises a TypeError.
\<close>

datatype settings = Settings "string list option"

datatype metadata = Metadata "settings option"

definition metadataRemappings :: "metadata option \<Rightarrow> js_error + string list" where
  "metadataRemappings m =
     (case m of
        None \<Rightarrow> Inl TypeError
      | Some (Metadata None) \<Rightarrow> Inl TypeError
      | Some (Metadata (Some (Settings None))) \<Rightarrow> Inl TypeError
      | Some (Metadata (Some (Settings (Some rules)))) \<Rightarrow> Inr rules)"

record VerificationRequest =
  address :: string
  language :: string
  compiler :: string
  optimize :: bool
  optimizeRuns :: int
  sourceFiles :: "SourceFile obj"
  license :: string
  evmVersion :: string
  viaIR :: bool
  libraries :: string
  metadata :: "metadata option"
  optimizerDetails :: string

text \<open>The object \<open>requestBody\<close> that is sent.\<close>

record RequestBody =
  address :: string
  language :: string
  compiler :: string
  optimize :: bool
  optimizeRuns :: int
  sourceFiles :: "entry obj"
  license :: string
  evmVersion :: string
  viaIR :: bool
  libraries :: string
  metadata :: string
  optimizerDetails :: string

text \<open>
  The resolver that \<open>verify\<close> hands to \<open>resolveNecessaryImports\<close>: the source files
  of the request, their remapped copies, and the parsed rules.
\<close>

definition importResolver :: "SourceFile obj \<Rightarrow> Remapping list \<Rightarrow> ImportResolver" where
  "importResolver files rms =
     \<lparr>ImportResolver.sourceFiles = files,
      remappedSourceFiles = createRemappedSourceFiles files rms,
      remappings = rms\<rparr>"

text \<open>
  The body of the \<open>try\<close> block of \<open>verify\<close>. The exchange with the service
  (\<open>fetch\<close>, then \<open>response.json()\<close>) is the parameter \<open>post\<close>: given the URL and the
  request body, it raises or gives the decoded answer.
\<close>

definition tryVerify ::
  "FilfoxVerifier \<Rightarrow> (string \<Rightarrow> RequestBody \<Rightarrow> js_error + 'r) \<Rightarrow> VerificationRequest
   \<Rightarrow> js_error + 'r" where
  "tryVerify this post request =
     (case metadataRemappings (VerificationRequest.metadata request) of
        Inl e \<Rightarrow> Inl e
      | Inr rules \<Rightarrow>
     (case parseRemappings rules of
        Inl e \<Rightarrow> Inl e
      | Inr rms \<Rightarrow>
          (let necessaryFiles = fst (resolveNecessaryImports
                 (importResolver (VerificationRequest.sourceFiles request) rms))
           in post (baseUrl this)
                \<lparr>RequestBody.address = VerificationRequest.address request,
                 language = VerificationRequest.language request,
                 compiler = normalizeCompilerVersion (VerificationRequest.compiler request),
                 optimize = VerificationRequest.optimize request,
                 optimizeRuns = VerificationRequest.optimizeRuns request,
                 sourceFiles = necessaryFiles,
                 license = VerificationRequest.license request,
                 evmVersion = VerificationRequest.evmVersion request,
                 viaIR = VerificationRequest.viaIR request,
                 libraries = VerificationRequest.libraries request,
                 metadata = [],
                 optimizerDetails = VerificationRequest.optimizerDetails request\<rparr>)))"

text \<open>
  What the promise of \<open>verify\<close> resolves to: the answer of the service, or the object
  \<open>{ errorCode: 8 }\<close> of the \<open>catch\<close> block.
\<close>

datatype 'r outcome = Answer 'r | ErrorCode8

text \<open>
  \<open>verify\<close>. The result is a sum so that a raised error would show as \<open>Inl\<close>.
\<close>

definition verify ::
  "FilfoxVerifier \<Rightarrow> (string \<Rightarrow> RequestBody \<Rightarrow> js_error + 'r) \<Rightarrow> VerificationRequest
   \<Rightarrow> js_error + 'r outcome" where
  "verify this post request =
     (case tryVerify this post request of
        Inr result \<Rightarrow> Inr (Answer result)
      | Inl error \<Rightarrow> Inr ErrorCode8)"

section \<open>First occurrences\<close>

text \<open>
  The elements of a list in the order of their first occurrence, each once. This is the
  list that pushing each element, unless it is already there, builds.
\<close>

fun firstOccurrences :: "'a list \<Rightarrow> 'a list" where
  "firstOccurrences [] = []"
| "firstOccurrences (x # xs) = x # firstOccurrences (filter (\<lambda>y. y \<noteq> x) xs)"

section \<open>Example inputs\<close>

text \<open>A request with the given source files and metadata, for the examples below.\<close>

definition exampleRequest :: "SourceFile obj \<Rightarrow> metadata option \<Rightarrow> VerificationRequest" where
  "exampleRequest files m =
     \<lparr>VerificationRequest.address = ''0x0000000000000000000000000000000000000001'',
      language = ''Solidity'', compiler = ''0.8.20+commit.a1b79de6'', optimize = True,
      optimizeRuns = 200, sourceFiles = files, license = ''MIT'', evmVersion = ''paris'',
      viaIR = False, libraries = [], metadata = m, optimizerDetails = []\<rparr>"

text \<open>
  The files of the end-to-end scenario: \<open>A.sol\<close> imports \<open>./B.sol\<close>, and nothing
  imports \<open>C.sol\<close>.
\<close>

definition abcFiles :: "SourceFile obj" where
  \<open>abcFiles =
     [(''A.sol'', \<lparr>content = ''import "./B.sol";''\<rparr>),
      (''B.sol'', \<lparr>content = ''contract B {}''\<rparr>),
      (''C.sol'', \<lparr>content = ''contract C {}''\<rparr>)]\<close>

text \<open>
  The files of the remapping scenario, with the rule \<open>@lib/=lib/token/\<close>: a main file
  that imports \<open>@lib/Token.sol\<close>, and a file at each of the paths \<open>@lib/Token.sol\<close> and
  \<open>lib/token/Token.sol\<close>, with the contents \<open>x\<close> and \<open>y\<close>.
\<close>

definition tokenFiles :: "string \<Rightarrow> string \<Rightarrow> SourceFile obj" where
  \<open>tokenFiles x y =
     [(''Main.sol'', \<lparr>content = ''import "@lib/Token.sol";''\<rparr>),
      (''@lib/Token.sol'', \<lparr>content = x\<rparr>),
      (''lib/token/Token.sol'', \<lparr>content = y\<rparr>)]\<close>


section \<open>Reachability\<close>

text \<open>
  The paths that the traversal can reach: the seeds, and every path that an import of an
  available reachable file resolves to.
\<close>

inductive reachable :: "Remapping list \<Rightarrow> SourceFile obj \<Rightarrow> string list \<Rightarrow> string \<Rightarrow> bool"
  for rms :: "Remapping list" and av :: "SourceFile obj" and seeds :: "string list" where
  seed: "p \<in> set seeds \<Longrightarrow> reachable rms av seeds p"
| step: "reachable rms av seeds f \<Longrightarrow> getProp av f = Some e
         \<Longrightarrow> i \<in> set (extractImports (contentText e))
         \<Longrightarrow> resolveImportPath i f rms av = (Some (p, e'), w)
         \<Longrightarrow> reachable rms av seeds p"

text \<open>
  A set \<open>P\<close> of paths is closed under imports into \<open>Q\<close> when every import of an
  available file of \<open>P\<close> that resolves, resolves to a path of \<open>Q\<close>.
\<close>

definition closed_under_imports ::
  "Remapping list \<Rightarrow> SourceFile obj \<Rightarrow> string set \<Rightarrow> string set \<Rightarrow> bool" where
  "closed_under_imports rms av P Q =
     (\<forall>f \<in> P. \<forall>e. getProp av f = Some e \<longrightarrow>
        (\<forall>i \<in> set (extractImports (contentText e)). \<forall>p e' w.
           resolveImportPath i f rms av = (Some (p, e'), w) \<longrightarrow> p \<in> Q))"

section \<open>The closure without the unresolved imports\<close>



section \<open>Properties of the compiler version and of the constructor\<close>

lemma indexOf_char: "(indexOf s [c] \<noteq> None) = (c \<in> set s)"
  by (induction s) auto

lemma normalizeCompilerVersion_char:
  "normalizeCompilerVersion version =
     (if CHR ''v'' \<in> set version then version else CHR ''v'' # version)"
  using indexOf_char [of version "CHR ''v''"]
  by (auto simp: normalizeCompilerVersion_def str_includes_def)

text \<open>
  C4. The claim: for every compiler version, the result of \<open>normalizeCompilerVersion\<close>
  starts with \<open>v\<close>; it is the input when the input starts with \<open>v\<close>, and \<open>v\<close> followed
  by the input otherwise. The code tests whether the input contains a \<open>v\<close> anywhere: the
  version \<open>0.8.20-develop\<close> does not start with \<open>v\<close> and is returned as it is, so the
  result does not start with \<open>v\<close> and is not \<open>v\<close> followed by the input.
\<close>

theorem normalizeCompilerVersion_inner_v:
  "normalizeCompilerVersion ''0.8.20-develop'' = ''0.8.20-develop''
   \<and> \<not> prefix ''v'' (normalizeCompilerVersion ''0.8.20-develop'')
   \<and> normalizeCompilerVersion ''0.8.20-develop'' \<noteq> ''v'' @ ''0.8.20-develop''"
  by (simp add: normalizeCompilerVersion_char)

text \<open>
  C8. Chain id 314 selects the mainnet endpoint and 314159 the calibration endpoint, two
  distinct literal URLs; for every other chain id the constructor raises, so that no
  verifier exists on which \<open>verify\<close> could build a request or reach the network.
\<close>

theorem newFilfoxVerifier_endpoints:
  "newFilfoxVerifier 314
     = Inr \<lparr>baseUrl = ''https://filfox.info/api/v1/tools/verifyContract'', chainId = 314\<rparr>
   \<and> newFilfoxVerifier 314159
     = Inr \<lparr>baseUrl = ''https://calibration.filfox.info/api/v1/tools/verifyContract'',
            chainId = 314159\<rparr>
   \<and> ''https://filfox.info/api/v1/tools/verifyContract''
     \<noteq> ''https://calibration.filfox.info/api/v1/tools/verifyContract''
   \<and> (\<forall>n. n \<noteq> 314 \<and> n \<noteq> 314159 \<longrightarrow> newFilfoxVerifier n = Inl (UnsupportedChainId n))"
  by (simp add: newFilfoxVerifier_def FILFOX_NETWORKS_def)

theorem newFilfoxVerifier_endpoints_witness:
  "(1::int) \<noteq> 314 \<and> (1::int) \<noteq> 314159 \<and> newFilfoxVerifier 1 = Inl (UnsupportedChainId 1)"
  using newFilfoxVerifier_endpoints by simp

section \<open>Properties of verify\<close>

text \<open>
  C9. \<open>verify\<close> never throws: for every verifier, every behaviour of the service and
  every request it returns a value, and whenever anything inside it raises (reading
  \<open>metadata.settings.remappings\<close> where a part is missing, a rule without \<open>=\<close>, a
  failure of the exchange with the service) the value is the same object
  \<open>{ errorCode: 8 }\<close>.
\<close>

theorem verify_never_throws:
  "(\<exists>out. verify this post request = Inr out)
   \<and> ((\<exists>e. tryVerify this post request = Inl e) \<longrightarrow> verify this post request = Inr ErrorCode8)
   \<and> ((\<exists>e. metadataRemappings (VerificationRequest.metadata request) = Inl e)
        \<longrightarrow> verify this post request = Inr ErrorCode8)
   \<and> ((\<exists>rules e. metadataRemappings (VerificationRequest.metadata request) = Inr rules
                 \<and> parseRemappings rules = Inl e)
        \<longrightarrow> verify this post request = Inr ErrorCode8)
   \<and> ((\<forall>url body. \<exists>e. post url body = Inl e) \<longrightarrow> verify this post request = Inr ErrorCode8)"
proof (intro conjI impI)
  show "\<exists>out. verify this post request = Inr out"
    by (simp add: verify_def split: sum.splits)
  show "verify this post request = Inr ErrorCode8" if "\<exists>e. tryVerify this post request = Inl e"
    using that by (auto simp: verify_def)
  show "verify this post request = Inr ErrorCode8"
    if "\<exists>e. metadataRemappings (VerificationRequest.metadata request) = Inl e"
    using that by (auto simp: verify_def tryVerify_def)
  show "verify this post request = Inr ErrorCode8"
    if "\<exists>rules e. metadataRemappings (VerificationRequest.metadata request) = Inr rules
          \<and> parseRemappings rules = Inl e"
    using that by (auto simp: verify_def tryVerify_def)
  show "verify this post request = Inr ErrorCode8" if h: "\<forall>url body. \<exists>e. post url body = Inl e"
  proof -
    have "\<exists>e. tryVerify this post request = Inl e"
      using h by (auto simp: tryVerify_def Let_def split: sum.splits)
    then show ?thesis by (auto simp: verify_def)
  qed
qed

theorem verify_never_throws_witness:
  "verify \<lparr>baseUrl = ''https://filfox.info/api/v1/tools/verifyContract'', chainId = 314\<rparr>
      (\<lambda>url body. Inr (0::nat))
      (exampleRequest [] (Some (Metadata (Some (Settings None))))) = Inr ErrorCode8
   \<and> verify \<lparr>baseUrl = ''https://filfox.info/api/v1/tools/verifyContract'', chainId = 314\<rparr>
      (\<lambda>url body. Inr (0::nat))
      (exampleRequest [] (Some (Metadata (Some (Settings (Some [''@oz/lib'']))))))
      = Inr ErrorCode8
   \<and> verify \<lparr>baseUrl = ''https://filfox.info/api/v1/tools/verifyContract'', chainId = 314\<rparr>
      (\<lambda>url body. Inl TransportFailure :: js_error + nat)
      (exampleRequest [] (Some (Metadata (Some (Settings (Some [''@oz/=lib/'']))))))
      = Inr ErrorCode8"
proof (intro conjI)
  let ?v = "\<lparr>baseUrl = ''https://filfox.info/api/v1/tools/verifyContract'', chainId = 314\<rparr>"
  have a: "\<exists>e. metadataRemappings (VerificationRequest.metadata
      (exampleRequest [] (Some (Metadata (Some (Settings None)))))) = Inl e"
    by (simp add: exampleRequest_def metadataRemappings_def)
  show "verify ?v (\<lambda>url body. Inr (0::nat))
      (exampleRequest [] (Some (Metadata (Some (Settings None))))) = Inr ErrorCode8"
    using verify_never_throws [of ?v "\<lambda>url body. Inr (0::nat)"
        "exampleRequest [] (Some (Metadata (Some (Settings None))))"] a
    by blast
  have b: "\<exists>rules e. metadataRemappings (VerificationRequest.metadata
      (exampleRequest [] (Some (Metadata (Some (Settings (Some [''@oz/lib''])))))))
        = Inr rules \<and> parseRemappings rules = Inl e"
    by (simp add: exampleRequest_def metadataRemappings_def parseRemapping_def)
  show "verify ?v (\<lambda>url body. Inr (0::nat))
      (exampleRequest [] (Some (Metadata (Some (Settings (Some [''@oz/lib'']))))))
      = Inr ErrorCode8"
    using verify_never_throws [of ?v "\<lambda>url body. Inr (0::nat)"
        "exampleRequest [] (Some (Metadata (Some (Settings (Some [''@oz/lib''])))))"] b
    by blast
  have c: "\<forall>url body. \<exists>e. (\<lambda>url body. Inl TransportFailure :: js_error + nat) url body = Inl e"
    by simp
  show "verify ?v (\<lambda>url body. Inl TransportFailure :: js_error + nat)
      (exampleRequest [] (Some (Metadata (Some (Settings (Some [''@oz/=lib/'']))))))
      = Inr ErrorCode8"
    using verify_never_throws [of ?v "\<lambda>url body. Inl TransportFailure :: js_error + nat"
        "exampleRequest [] (Some (Metadata (Some (Settings (Some [''@oz/=lib/''])))))"] c
    by blast
qed

section \<open>Properties of parseRemappings\<close>

lemma split_first:
  "split sep s =
     takeWhile (\<lambda>c. c \<noteq> sep) s
     # (if sep \<in> set s then split sep (tl (dropWhile (\<lambda>c. c \<noteq> sep) s)) else [])"
  by (induction s) (auto split: list.splits)

lemma split_second:
  assumes "sep \<in> set s"
  shows "\<exists>rest. split sep s =
     takeWhile (\<lambda>c. c \<noteq> sep) s
     # takeWhile (\<lambda>c. c \<noteq> sep) (tl (dropWhile (\<lambda>c. c \<noteq> sep) s)) # rest"
proof -
  have "split sep s = takeWhile (\<lambda>c. c \<noteq> sep) s # split sep (tl (dropWhile (\<lambda>c. c \<noteq> sep) s))"
    using assms split_first [of sep s] by simp
  moreover have "\<exists>rest. split sep (tl (dropWhile (\<lambda>c. c \<noteq> sep) s))
      = takeWhile (\<lambda>c. c \<noteq> sep) (tl (dropWhile (\<lambda>c. c \<noteq> sep) s)) # rest"
    using split_first [of sep "tl (dropWhile (\<lambda>c. c \<noteq> sep) s)"] by simp
  ultimately show ?thesis by auto
qed

lemma parseRemapping_no_separator:
  "CHR ''='' \<notin> set rule \<Longrightarrow> parseRemapping rule = Inl TypeError"
  using split_first [of "CHR ''=''" rule] by (simp add: parseRemapping_def)

lemma parseRemapping_separator:
  assumes "CHR ''='' \<in> set rule"
  shows "parseRemapping rule =
     Inr \<lparr>original = trim (takeWhile (\<lambda>c. c \<noteq> CHR ''='') rule),
          resolved = trim (takeWhile (\<lambda>c. c \<noteq> CHR ''='')
                             (tl (dropWhile (\<lambda>c. c \<noteq> CHR ''='') rule)))\<rparr>"
  using split_second [OF assms] by (auto simp: parseRemapping_def)

text \<open>
  C3, as amended. \<open>parseRemappings\<close> splits every rule at each \<open>=\<close> and trims the first
  two pieces: \<open>original\<close> is the text before the first \<open>=\<close>, and \<open>resolved\<close> is the
  text between the first \<open>=\<close> and the next one (or the end of the rule). A rule with no
  \<open>=\<close> makes the call fail with a TypeError. A rule with an empty side is accepted and
  gives a rule with that empty side.
\<close>

theorem parseRemappings_splits:
  "parseRemappings rules =
     (if \<forall>rule \<in> set rules. CHR ''='' \<in> set rule
      then Inr (map (\<lambda>rule.
             \<lparr>original = trim (takeWhile (\<lambda>c. c \<noteq> CHR ''='') rule),
              resolved = trim (takeWhile (\<lambda>c. c \<noteq> CHR ''='')
                                 (tl (dropWhile (\<lambda>c. c \<noteq> CHR ''='') rule)))\<rparr>) rules)
      else Inl TypeError)"
proof (induction rules)
  case Nil
  show ?case by simp
next
  case (Cons rule rules)
  show ?case
  proof (cases "CHR ''='' \<in> set rule")
    case True
    then show ?thesis
      using Cons.IH by (simp add: parseRemapping_separator)
  next
    case False
    then show ?thesis
      by (simp add: parseRemapping_no_separator)
  qed
qed

theorem parseRemappings_splits_witness:
  "CHR ''='' \<in> set '' @oz/ = lib/oz/ '' \<and> CHR ''='' \<in> set ''a=b=c'' \<and> CHR ''='' \<in> set ''=x''
   \<and> CHR ''='' \<notin> set ''@oz/lib/oz/''
   \<and> parseRemappings ['' @oz/ = lib/oz/ '', ''a=b=c'', ''=x'']
     = Inr [\<lparr>original = ''@oz/'', resolved = ''lib/oz/''\<rparr>,
            \<lparr>original = ''a'', resolved = ''b''\<rparr>,
            \<lparr>original = [], resolved = ''x''\<rparr>]
   \<and> parseRemappings [''@oz/=lib/oz/'', ''@oz/lib/oz/''] = Inl TypeError"
  using parseRemappings_splits [of "['' @oz/ = lib/oz/ '', ''a=b=c'', ''=x'']"]
    parseRemappings_splits [of "[''@oz/=lib/oz/'', ''@oz/lib/oz/'']"]
  by (simp add: trim_def isWhiteSpace_def)

text \<open>
  C3 as stated fails: a rule with an empty side does not fail but yields a rule; \<open>a=b=c\<close>
  gives the resolved text \<open>b\<close>, not the text \<open>b=c\<close> after the first \<open>=\<close>; and a rule
  with no \<open>=\<close> fails with a TypeError, the only error the function can raise.
\<close>

theorem parseRemappings_counterexample:
  "parseRemappings [''=lib/''] = Inr [\<lparr>original = [], resolved = ''lib/''\<rparr>]
   \<and> parseRemappings [''@oz/=''] = Inr [\<lparr>original = ''@oz/'', resolved = []\<rparr>]
   \<and> parseRemappings [''a=b=c''] = Inr [\<lparr>original = ''a'', resolved = ''b''\<rparr>]
   \<and> parseRemappings [''@oz/lib/''] = Inl TypeError"
  by (simp add: parseRemapping_def trim_def isWhiteSpace_def)

section \<open>Properties of extractImports\<close>

text \<open>
  A match of one of the four patterns is never empty, so the loop of \<open>exec\<close> calls
  always advances in the text.
\<close>

lemma rmatch_shorter: "rmatch its s = Some (cap, rest) \<Longrightarrow> length rest \<le> length s"
proof (induction its s arbitrary: cap rest rule: rmatch.induct)
  case (1 s)
  then show ?case by simp
next
  case (2 k cap' its)
  then show ?case by simp
next
  case (3 k cap' its c cs)
  then show ?case
    by (cases "rmatch its cs") (auto simp: keep_def split: if_splits)
next
  case (4 k cap' its)
  then show ?case by simp
next
  case (5 k cap' its c cs)
  then show ?case
    by (cases "rmatch ((k, Star, cap') # its) cs") (auto simp: keep_def split: if_splits)
next
  case (6 k cap' its)
  then show ?case by simp
next
  case (7 k cap' its c cs)
  show ?case
  proof (cases "cls_matches k c")
    case True
    show ?thesis
    proof (cases "rmatch ((k, Star, cap') # its) cs")
      case None
      then show ?thesis using 7 True by simp
    next
      case (Some r)
      then have "length (snd r) \<le> length cs"
        using "7.IH"(1) [OF True, of "fst r" "snd r"] by simp
      then show ?thesis using "7.prems" True Some by (auto simp: keep_def split: if_splits)
    qed
  next
    case False
    then show ?thesis using 7 by simp
  qed
qed

lemma rmatch_advances:
  assumes "rmatch ((k, One, c) # its) s = Some (cap, rest)"
  shows "length rest < length s"
proof (cases s)
  case Nil
  then show ?thesis using assms by simp
next
  case (Cons x xs)
  then obtain r where r: "rmatch its xs = Some r" and e: "(cap, rest) = keep c x r"
    using assms by (auto split: if_splits)
  have "length (snd r) \<le> length xs"
    using rmatch_shorter [of its xs "fst r" "snd r"] r by simp
  then show ?thesis using e Cons by (auto simp: keep_def split: if_splits)
qed

lemma importRegexes_advance:
  assumes "regex \<in> set importRegexes" and "rmatch regex s = Some (cap, rest)"
  shows "length rest < length s"
proof -
  obtain its where "regex = (Lit CHR ''i'', One, False) # its"
    using assms(1) by (auto simp: importRegexes_def lits_def)
  then show ?thesis using assms(2) rmatch_advances by blast
qed

lemma execAll_importRegexes:
  assumes "regex \<in> set importRegexes"
  shows "execAll regex s =
     (case rmatch regex s of
        Some (cap, rest) \<Rightarrow> cap # execAll regex rest
      | None \<Rightarrow> (case s of [] \<Rightarrow> [] | _ # t \<Rightarrow> execAll regex t))"
  using importRegexes_advance [OF assms, of s]
  by (subst execAll.simps) (auto split: option.splits)

lemma set_firstOccurrences: "set (firstOccurrences xs) = set xs"
  by (induction xs rule: firstOccurrences.induct) auto

lemma distinct_firstOccurrences: "distinct (firstOccurrences xs)"
  by (induction xs rule: firstOccurrences.induct) (auto simp: set_firstOccurrences)

lemma foldl_pushImport:
  "foldl pushImport acc ps
     = acc @ firstOccurrences (filter (\<lambda>p. p \<noteq> [] \<and> p \<notin> set acc) ps)"
proof (induction ps arbitrary: acc)
  case Nil
  show ?case by simp
next
  case (Cons p ps)
  have eq: "filter (\<lambda>q. q \<noteq> [] \<and> q \<notin> set (acc @ [p])) ps
      = filter (\<lambda>y. y \<noteq> p) (filter (\<lambda>q. q \<noteq> [] \<and> q \<notin> set acc) ps)"
    by (auto intro: filter_cong)
  show ?case
  proof (cases "p \<noteq> [] \<and> p \<notin> set acc")
    case True
    then show ?thesis
      using Cons.IH [of "acc @ [p]"] eq by (simp add: pushImport_def)
  next
    case False
    then show ?thesis
      using Cons.IH [of acc] by (auto simp: pushImport_def)
  qed
qed

lemma foldl_regexes:
  "foldl (\<lambda>acc regex. foldl pushImport acc (f regex)) acc res
     = foldl pushImport acc (concat (map f res))"
  by (induction res arbitrary: acc) auto

text \<open>
  C5, as amended. For every source text, \<open>extractImports\<close> returns the distinct import
  targets, each once, ordered by lexical form first and by position in the text within
  one form: the targets of all \<open>import "path"\<close> statements in textual order, then those
  of \<open>import { Symbol } from "path"\<close>, then those of \<open>import * as Alias from "path"\<close>,
  then those of \<open>import Alias from "path"\<close>; a target found again is left out.
\<close>

theorem extractImports_order:
  "extractImports text
     = firstOccurrences (filter (\<lambda>p. p \<noteq> [])
         (concat (map (\<lambda>regex. execAll regex text) importRegexes)))
   \<and> distinct (extractImports text)"
proof -
  have "extractImports text
     = firstOccurrences (filter (\<lambda>p. p \<noteq> [])
         (concat (map (\<lambda>regex. execAll regex text) importRegexes)))"
    unfolding extractImports_def
    by (simp only: foldl_regexes foldl_pushImport [of "[]"] append_Nil list.set empty_iff simp_thms)
  then show ?thesis by (simp add: distinct_firstOccurrences)
qed

theorem extractImports_order_witness:
  \<open>distinct (extractImports ''import {X} from "a.sol"; import "b.sol";'')\<close>
  using extractImports_order [of \<open>''import {X} from "a.sol"; import "b.sol";''\<close>]
  by blast

text \<open>
  C5 as stated fails where the forms interleave: in the text below \<open>a.sol\<close> appears first
  (at position 17, \<open>b.sol\<close> at position 33), and the result lists \<open>b.sol\<close> first.
\<close>

theorem extractImports_counterexample:
  \<open>extractImports ''import {X} from "a.sol"; import "b.sol";'' = [''b.sol'', ''a.sol'']
   \<and> indexOf ''import {X} from "a.sol"; import "b.sol";'' ''a.sol'' = Some 17
   \<and> indexOf ''import {X} from "a.sol"; import "b.sol";'' ''b.sol'' = Some 33\<close>
  by code_simp

section \<open>Invariants of the traversal\<close>

lemma set_insertIndexKey: "set (insertIndexKey k v ob) = insert (k, v) (set ob)"
  by (induction ob) auto

lemma set_update_subset: "set (AList.update k v ob) \<subseteq> insert (k, v) (set ob)"
  by (induction ob) auto

lemma set_defineProperty: "set (defineProperty k v ob) \<subseteq> insert (k, v) (set ob)"
  using set_update_subset [of k v ob]
  by (auto simp: defineProperty_def set_insertIndexKey)

lemma set_setProp: "set (setProp k v ob) \<subseteq> insert (k, v) (set ob)"
  using set_defineProperty [of k v ob] by (auto simp: setProp_def)

lemma traverse_invariant:
  assumes init: "I nec processed queue warned"
    and skip: "\<And>nec processed c queue warned.
      I nec processed (c # queue) warned \<Longrightarrow> c \<in> set processed \<Longrightarrow> I nec processed queue warned"
    and miss: "\<And>nec processed c queue warned.
      I nec processed (c # queue) warned \<Longrightarrow> c \<notin> set processed \<Longrightarrow> getProp av c = None
      \<Longrightarrow> I nec (processed @ [c]) queue warned"
    and hit: "\<And>nec processed c queue warned e queue' warned'.
      I nec processed (c # queue) warned \<Longrightarrow> c \<notin> set processed \<Longrightarrow> getProp av c = Some e
      \<Longrightarrow> enqueueImports rms av c (processed @ [c]) (extractImports (contentText e))
            (queue, warned) = (queue', warned')
      \<Longrightarrow> I (setProp c e nec) (processed @ [c]) queue' warned'"
  shows "\<exists>processed'. I (fst (traverse rms av nec processed queue warned)) processed' []
           (snd (traverse rms av nec processed queue warned))"
  using assms
proof (induction rms av nec processed queue warned rule: traverse.induct)
  case (1 rms av nec processed warned)
  then show ?case by auto
next
  case (2 rms av nec processed c queue warned)
  note init = "2.prems"(1) and skip = "2.prems"(2) and miss = "2.prems"(3)
    and hit = "2.prems"(4)
  show ?case
  proof (cases "c \<in> set processed")
    case True
    have eq: "traverse rms av nec processed (c # queue) warned
        = traverse rms av nec processed queue warned"
      using True by simp
    show ?thesis
      unfolding eq by (rule "2.IH"(1) [OF True skip [OF init True] skip miss hit])
  next
    case False
    show ?thesis
    proof (cases "getProp av c")
      case None
      have eq: "traverse rms av nec processed (c # queue) warned
          = traverse rms av nec (processed @ [c]) queue warned"
        using False None by simp
      show ?thesis
        unfolding eq
        by (rule "2.IH"(2) [OF False None miss [OF init False None] skip miss hit])
    next
      case (Some e)
      obtain queue' warned' where q:
        "enqueueImports rms av c (processed @ [c]) (extractImports (contentText e))
            (queue, warned) = (queue', warned')"
        by (cases "enqueueImports rms av c (processed @ [c]) (extractImports (contentText e))
            (queue, warned)") auto
      have eq: "traverse rms av nec processed (c # queue) warned
          = traverse rms av (setProp c e nec) (processed @ [c]) queue' warned'"
        using False Some q by simp
      show ?thesis
        unfolding eq
        by (rule "2.IH"(3) [OF False Some q [symmetric] hit [OF init False Some q]
              skip miss hit])
    qed
  qed
qed




lemma enqueueImport_queue:
  "set (fst (enqueueImport rms av c processed st i))
     \<subseteq> set (fst st) \<union> {p. \<exists>e w. resolveImportPath i c rms av = (Some (p, e), w)}"
  by (auto simp: enqueueImport_def split: prod.splits option.splits)


lemma enqueueImports_queue:
  "set (fst (enqueueImports rms av c processed imps st))
     \<subseteq> set (fst st)
       \<union> {p. \<exists>i \<in> set imps. \<exists>e w. resolveImportPath i c rms av = (Some (p, e), w)}"
  unfolding enqueueImports_def
proof (induction imps arbitrary: st)
  case Nil
  show ?case by auto
next
  case (Cons i imps)
  show ?case
    using Cons.IH [of "enqueueImport rms av c processed st i"]
      enqueueImport_queue [of rms av c processed st i]
    by (auto; blast)
qed


lemma traverse_entries:
  assumes "\<forall>(k, e) \<in> set nec. getProp av k = Some e"
  shows "\<forall>(k, e) \<in> set (fst (traverse rms av nec processed queue warned)). getProp av k = Some e"
proof -
  let ?I = "\<lambda>nec (processed :: string list) (queue :: string list) (warned :: diagnostic list). \<forall>(k, e) \<in> set nec. getProp av k = Some e"
  have "\<exists>processed'. ?I (fst (traverse rms av nec processed queue warned)) processed' []
      (snd (traverse rms av nec processed queue warned))"
  proof (rule traverse_invariant [where I = ?I], goal_cases)
    case 1
    show ?case by (rule assms)
  next
    case (2 nec processed c queue warned)
    then show ?case by simp
  next
    case (3 nec processed c queue warned)
    then show ?case by simp
  next
    case (4 nec processed c queue warned e queue' warned')
    then show ?case using set_setProp [of c e nec] by auto
  qed
  then show ?thesis by simp
qed

lemma traverse_reachable:
  assumes "set queue \<union> fst ` set nec \<subseteq> {p. reachable rms av seeds p}"
  shows "fst ` set (fst (traverse rms av nec processed queue warned))
           \<subseteq> {p. reachable rms av seeds p}"
proof -
  let ?I = "\<lambda>nec (processed :: string list) (queue :: string list) (warned :: diagnostic list).
          set queue \<union> fst ` set nec \<subseteq> {p. reachable rms av seeds p}"
  have "\<exists>processed'. ?I (fst (traverse rms av nec processed queue warned)) processed' []
      (snd (traverse rms av nec processed queue warned))"
  proof (rule traverse_invariant [where I = ?I], goal_cases)
    case 1
    show ?case by (rule assms)
  next
    case (2 nec processed c queue warned)
    then show ?case by auto
  next
    case (3 nec processed c queue warned)
    then show ?case by auto
  next
    case (4 nec processed c queue warned e queue' warned')
    have c: "reachable rms av seeds c" using 4(1) by simp
    have "set queue' \<subseteq> set queue
        \<union> {p. \<exists>i \<in> set (extractImports (contentText e)). \<exists>e' w.
               resolveImportPath i c rms av = (Some (p, e'), w)}"
      using enqueueImports_queue [of rms av c "processed @ [c]"
          "extractImports (contentText e)" "(queue, warned)"] 4(4)
      by simp
    then have q: "set queue' \<subseteq> {p. reachable rms av seeds p}"
      using 4(1) reachable.step [OF c 4(3)] by auto
    have "fst ` set (setProp c e nec) \<subseteq> insert c (fst ` set nec)"
      using set_setProp [of c e nec] by auto
    then have "fst ` set (setProp c e nec) \<subseteq> {p. reachable rms av seeds p}"
      using 4(1) c by auto
    then show ?case using q by simp
  qed
  then show ?thesis by simp
qed


lemma keys_insertIndexKey: "fst ` set (insertIndexKey k v ob) = insert k (fst ` set ob)"
  by (simp add: set_insertIndexKey)

lemma keys_update: "fst ` set (AList.update k v ob) = insert k (fst ` set ob)"
  by (induction ob) auto

lemma keys_defineProperty: "fst ` set (defineProperty k v ob) = insert k (fst ` set ob)"
  by (auto simp: defineProperty_def keys_update keys_insertIndexKey)

lemma keys_setProp:
  "fst ` set (setProp k v ob) = (if k = ''__proto__'' then fst ` set ob else insert k (fst ` set ob))"
  by (simp add: setProp_def keys_defineProperty)

lemma enqueueImport_mono:
  "set (fst st) \<subseteq> set (fst (enqueueImport rms av c processed st i))"
  by (auto simp: enqueueImport_def split: prod.splits option.splits)

lemma enqueueImports_mono:
  "set (fst st) \<subseteq> set (fst (enqueueImports rms av c processed imps st))"
  unfolding enqueueImports_def
proof (induction imps arbitrary: st)
  case Nil
  show ?case by simp
next
  case (Cons i imps)
  show ?case
    using Cons.IH [of "enqueueImport rms av c processed st i"]
      enqueueImport_mono [of st rms av c processed i]
    by auto
qed

lemma enqueueImport_covers:
  assumes "resolveImportPath i c rms av = (Some (p, e), w)"
  shows "p \<in> set processed \<union> set (fst (enqueueImport rms av c processed st i))"
  using assms by (auto simp: enqueueImport_def)

lemma enqueueImports_covers:
  assumes "i \<in> set imps" and "resolveImportPath i c rms av = (Some (p, e), w)"
  shows "p \<in> set processed \<union> set (fst (enqueueImports rms av c processed imps st))"
  using assms(1)
proof (induction imps arbitrary: st)
  case Nil
  then show ?case by simp
next
  case (Cons j imps)
  show ?case
  proof (cases "i = j")
    case True
    have "p \<in> set processed \<union> set (fst (enqueueImport rms av c processed st j))"
      using enqueueImport_covers [OF assms(2)] True by simp
    moreover have "set (fst (enqueueImport rms av c processed st j))
        \<subseteq> set (fst (enqueueImports rms av c processed imps
                       (enqueueImport rms av c processed st j)))"
      by (rule enqueueImports_mono)
    ultimately show ?thesis by (auto simp: enqueueImports_def)
  next
    case False
    then have "i \<in> set imps" using Cons.prems by simp
    from Cons.IH [OF this, of "enqueueImport rms av c processed st j"]
    show ?thesis by (simp add: enqueueImports_def)
  qed
qed

text \<open>
  The traversal visits every path that the seeds reach: such a path is a key of the result
  when it is available, unless it is the key \<open>__proto__\<close>, which no assignment creates.
\<close>

lemma closed_under_imports_mono:
  assumes "closed_under_imports rms av P Q" and "Q \<subseteq> Q'"
  shows "closed_under_imports rms av P Q'"
  using assms unfolding closed_under_imports_def by blast

lemma closed_under_imports_miss:
  assumes "closed_under_imports rms av P Q" and "getProp av c = None"
  shows "closed_under_imports rms av (insert c P) Q"
  using assms unfolding closed_under_imports_def by auto

lemma traverse_complete:
  assumes "reachable rms av seeds p" and "getProp av p \<noteq> None" and "p \<noteq> ''__proto__''"
  shows "p \<in> fst ` set (fst (traverse rms av [] [] seeds []))"
proof -
  let ?I = "\<lambda>(nec :: entry obj) (processed :: string list) (queue :: string list)
      (warned :: diagnostic list).
      set seeds \<subseteq> set processed \<union> set queue
      \<and> closed_under_imports rms av (set processed) (set processed \<union> set queue)
      \<and> (\<forall>f \<in> set processed. getProp av f \<noteq> None \<and> f \<noteq> ''__proto__'' \<longrightarrow> f \<in> fst ` set nec)"
  have "\<exists>processed'. ?I (fst (traverse rms av [] [] seeds [])) processed' []
      (snd (traverse rms av [] [] seeds []))"
  proof (rule traverse_invariant [where I = ?I], goal_cases)
    case 1
    show ?case by (simp add: closed_under_imports_def)
  next
    case (2 nec processed c queue warned)
    have "set processed \<union> set (c # queue) = set processed \<union> set queue"
      using 2(2) by auto
    then show ?case using 2(1) by simp
  next
    case (3 nec processed c queue warned)
    have "closed_under_imports rms av (set processed) (set (processed @ [c]) \<union> set queue)"
      using 3(1) by (auto elim: closed_under_imports_mono)
    then have "closed_under_imports rms av (set (processed @ [c]))
        (set (processed @ [c]) \<union> set queue)"
      using closed_under_imports_miss [OF _ 3(3)] by simp
    moreover have "set seeds \<subseteq> set (processed @ [c]) \<union> set queue"
      using 3(1) by auto
    moreover have "\<forall>f \<in> set (processed @ [c]). getProp av f \<noteq> None \<and> f \<noteq> ''__proto__''
        \<longrightarrow> f \<in> fst ` set nec"
      using 3(1,3) by auto
    ultimately show ?case by blast
  next
    case (4 nec processed c queue warned e queue' warned')
    have q': "queue' = fst (enqueueImports rms av c (processed @ [c])
        (extractImports (contentText e)) (queue, warned))"
      using 4(4) by simp
    have mono: "set queue \<subseteq> set queue'"
      unfolding q' using enqueueImports_mono [of "(queue, warned)"] by simp
    have a: "set seeds \<subseteq> set (processed @ [c]) \<union> set queue'"
      using 4(1) mono by auto
    have b: "closed_under_imports rms av (set (processed @ [c]))
        (set (processed @ [c]) \<union> set queue')"
      unfolding closed_under_imports_def
    proof (intro ballI allI impI)
      fix f e1 i p e' w
      assume f: "f \<in> set (processed @ [c])" and g: "getProp av f = Some e1"
        and i: "i \<in> set (extractImports (contentText e1))"
        and r: "resolveImportPath i f rms av = (Some (p, e'), w)"
      show "p \<in> set (processed @ [c]) \<union> set queue'"
      proof (cases "f = c")
        case True
        then have "e1 = e" using g 4(3) by simp
        then show ?thesis
          unfolding q'
          using enqueueImports_covers [of i "extractImports (contentText e)" c rms av p e' w
              "processed @ [c]" "(queue, warned)"] i r True
          by simp
      next
        case False
        then have "f \<in> set processed" using f by simp
        moreover have "closed_under_imports rms av (set processed)
            (set processed \<union> set (c # queue))"
          using 4(1) by simp
        ultimately have "p \<in> set processed \<union> set (c # queue)"
          using g i r unfolding closed_under_imports_def by blast
        then show ?thesis using mono by auto
      qed
    qed
    have c: "\<forall>f \<in> set (processed @ [c]). getProp av f \<noteq> None \<and> f \<noteq> ''__proto__''
        \<longrightarrow> f \<in> fst ` set (setProp c e nec)"
      using 4(1) by (auto simp: keys_setProp)
    show ?case using a b c by blast
  qed
  then obtain P where s: "set seeds \<subseteq> set P"
    and cl: "closed_under_imports rms av (set P) (set P)"
    and n: "\<forall>f \<in> set P. getProp av f \<noteq> None \<and> f \<noteq> ''__proto__''
        \<longrightarrow> f \<in> fst ` set (fst (traverse rms av [] [] seeds []))"
    by auto
  have "p \<in> set P"
    using assms(1)
  proof (induction rule: reachable.induct)
    case (seed p)
    then show ?case using s by auto
  next
    case (step f e i p e' w)
    then show ?case using cl unfolding closed_under_imports_def by blast
  qed
  then show ?thesis using n assms(2,3) by blast
qed

section \<open>Properties of the closure\<close>

lemma resolveNecessaryImports_abc:
  "fst (resolveNecessaryImports (importResolver abcFiles []))
     = [(''A.sol'', File \<lparr>content = ''import '' @ [CHR 0x22] @ ''./B.sol'' @ [CHR 0x22] @ '';''\<rparr>),
        (''B.sol'', File \<lparr>content = ''contract B {}''\<rparr>),
        (''C.sol'', File \<lparr>content = ''contract C {}''\<rparr>)]"
  by code_simp

text \<open>
  C1, as amended. For the available files \<open>A.sol\<close> (which imports \<open>./B.sol\<close>),
  \<open>B.sol\<close> and \<open>C.sol\<close> and no remappings, \<open>resolveNecessaryImports\<close> returns a map
  whose keys are \<open>A.sol\<close>, \<open>B.sol\<close> and \<open>C.sol\<close>: every path of the caller that has no
  remapped copy is a seed of the traversal. For every input, a path in the result is a seed
  or is reached from a seed through imports that resolve; so a path that is neither is
  excluded from the result.
\<close>

theorem resolveNecessaryImports_reachable:
  "map fst (fst (resolveNecessaryImports (importResolver abcFiles [])))
     = [''A.sol'', ''B.sol'', ''C.sol'']
   \<and> (\<forall>p. p \<in> fst ` set (fst (resolveNecessaryImports resolver))
          \<longrightarrow> reachable (ImportResolver.remappings resolver) (allAvailableFiles resolver)
                (seedQueue resolver) p)"
proof
  show "map fst (fst (resolveNecessaryImports (importResolver abcFiles [])))
     = [''A.sol'', ''B.sol'', ''C.sol'']"
    by (simp add: resolveNecessaryImports_abc)
  have "fst ` set (fst (traverse (ImportResolver.remappings resolver) (allAvailableFiles resolver)
          [] [] (seedQueue resolver) []))
      \<subseteq> {p. reachable (ImportResolver.remappings resolver) (allAvailableFiles resolver)
            (seedQueue resolver) p}"
    by (rule traverse_reachable) (auto intro: reachable.seed)
  then show "\<forall>p. p \<in> fst ` set (fst (resolveNecessaryImports resolver))
          \<longrightarrow> reachable (ImportResolver.remappings resolver) (allAvailableFiles resolver)
                (seedQueue resolver) p"
    unfolding resolveNecessaryImports_def by blast
qed

theorem resolveNecessaryImports_reachable_witness:
  "''B.sol'' \<in> fst ` set (fst (resolveNecessaryImports (importResolver abcFiles [])))
   \<and> reachable (ImportResolver.remappings (importResolver abcFiles []))
       (allAvailableFiles (importResolver abcFiles []))
       (seedQueue (importResolver abcFiles [])) ''B.sol''"
proof -
  have m: "''B.sol'' \<in> fst ` set (fst (resolveNecessaryImports (importResolver abcFiles [])))"
    by (simp add: resolveNecessaryImports_abc)
  have "''B.sol'' \<in> fst ` set (fst (resolveNecessaryImports (importResolver abcFiles [])))
      \<longrightarrow> reachable (ImportResolver.remappings (importResolver abcFiles []))
       (allAvailableFiles (importResolver abcFiles []))
       (seedQueue (importResolver abcFiles [])) ''B.sol''"
    by (rule resolveNecessaryImports_reachable [of "importResolver abcFiles []",
          THEN conjunct2, THEN spec])
  then show ?thesis using m by simp
qed

text \<open>
  C1 as stated fails: no file imports \<open>C.sol\<close> (the only import in the three files is
  \<open>./B.sol\<close>), and \<open>C.sol\<close> is in the result, which therefore is not the set of
  \<open>A.sol\<close> and \<open>B.sol\<close>.
\<close>

theorem resolveNecessaryImports_counterexample:
  \<open>map fst (fst (resolveNecessaryImports (importResolver abcFiles [])))
     = [''A.sol'', ''B.sol'', ''C.sol'']
   \<and> extractImports ''import "./B.sol";'' = [''./B.sol'']
   \<and> extractImports ''contract B {}'' = []
   \<and> extractImports ''contract C {}'' = []
   \<and> fst ` set (fst (resolveNecessaryImports (importResolver abcFiles [])))
     \<noteq> {''A.sol'', ''B.sol''}\<close>
proof -
  have a: "map fst (fst (resolveNecessaryImports (importResolver abcFiles [])))
     = [''A.sol'', ''B.sol'', ''C.sol'']"
    by (simp add: resolveNecessaryImports_abc)
  have b1: \<open>extractImports ''import "./B.sol";'' = [''./B.sol'']\<close>
    by code_simp
  have b2: "extractImports ''contract B {}'' = []"
    by code_simp
  have b3: "extractImports ''contract C {}'' = []"
    by code_simp
  have m: "''C.sol'' \<in> fst ` set (fst (resolveNecessaryImports (importResolver abcFiles [])))"
    by (simp add: resolveNecessaryImports_abc)
  have n: "''C.sol'' \<notin> {''A.sol'', ''B.sol''}"
    by simp
  have c: "fst ` set (fst (resolveNecessaryImports (importResolver abcFiles [])))
     \<noteq> {''A.sol'', ''B.sol''}"
  proof
    assume "fst ` set (fst (resolveNecessaryImports (importResolver abcFiles [])))
      = {''A.sol'', ''B.sol''}"
    then have "''C.sol'' \<in> {''A.sol'', ''B.sol''}" using m by (simp only:)
    then show False using n by (simp only:)
  qed
  show ?thesis by (intro conjI a b1 b2 b3 c)
qed















text \<open>The pieces of the remapping scenario.\<close>

lemma token_remapped:
  "createRemappedSourceFiles (tokenFiles x y) [\<lparr>original = ''@lib/'', resolved = ''lib/token/''\<rparr>]
     = [(''@lib/Token.sol'', \<lparr>content = y\<rparr>)]"
  by (simp add: createRemappedSourceFiles_def tokenFiles_def replace_def setProp_def
      defineProperty_def isArrayIndex_def)

lemma token_available:
  "allAvailableFiles (importResolver (tokenFiles x y) [\<lparr>original = ''@lib/'', resolved = ''lib/token/''\<rparr>])
     = [(''Main.sol'', \<lparr>content = ''import '' @ [CHR 0x22] @ ''@lib/Token.sol'' @ [CHR 0x22] @ '';''\<rparr>),
        (''@lib/Token.sol'', \<lparr>content = y\<rparr>),
        (''lib/token/Token.sol'', \<lparr>content = y\<rparr>)]"
  unfolding allAvailableFiles_def importResolver_def token_remapped
  by (simp add: tokenFiles_def spread_def defineProperty_def isArrayIndex_def)

lemma token_seeds:
  "seedQueue (importResolver (tokenFiles x y) [\<lparr>original = ''@lib/'', resolved = ''lib/token/''\<rparr>])
     = [''@lib/Token.sol'', ''Main.sol'', ''@lib/Token.sol'']"
  unfolding seedQueue_def importResolver_def token_remapped
  by (simp add: tokenFiles_def hasRemappedVersion_def replace_def)

lemma main_imports:
  \<open>extractImports ''import "@lib/Token.sol";'' = [''@lib/Token.sol'']\<close>
  by code_simp

text \<open>
  C2, as amended. Given the rule \<open>@lib/=lib/token/\<close>, files at both \<open>@lib/Token.sol\<close>
  and \<open>lib/token/Token.sol\<close> (the latter importing nothing) and a main file that imports
  \<open>@lib/Token.sol\<close>, the closure contains exactly one Token entry. Its key is
  \<open>@lib/Token.sol\<close>, the path of \<open>lib/token/Token.sol\<close> with the prefix \<open>lib/token/\<close>
  rewritten to \<open>@lib/\<close>, and its content is the content of the file at
  \<open>lib/token/Token.sol\<close>; the content given at \<open>@lib/Token.sol\<close> is not in the result.
\<close>

theorem remapped_token_entry:
  assumes "extractImports y = []"
  shows "parseRemappings [''@lib/=lib/token/'']
       = Inr [\<lparr>original = ''@lib/'', resolved = ''lib/token/''\<rparr>]
     \<and> fst (resolveNecessaryImports
            (importResolver (tokenFiles x y) [\<lparr>original = ''@lib/'', resolved = ''lib/token/''\<rparr>]))
       = [(''@lib/Token.sol'', File \<lparr>content = y\<rparr>),
          (''Main.sol'',
           File \<lparr>content = ''import '' @ [CHR 0x22] @ ''@lib/Token.sol'' @ [CHR 0x22] @ '';''\<rparr>)]"
proof
  show "parseRemappings [''@lib/=lib/token/'']
       = Inr [\<lparr>original = ''@lib/'', resolved = ''lib/token/''\<rparr>]"
    by (simp add: parseRemapping_def trim_def isWhiteSpace_def)
  have m: "extractImports (''import '' @ [CHR 0x22] @ ''@lib/Token.sol'' @ [CHR 0x22] @ '';'')
      = [''@lib/Token.sol'']"
    using main_imports by simp
  have r: "ImportResolver.remappings
      (importResolver (tokenFiles x y) [\<lparr>original = ''@lib/'', resolved = ''lib/token/''\<rparr>])
      = [\<lparr>original = ''@lib/'', resolved = ''lib/token/''\<rparr>]"
    by (simp add: importResolver_def)
  show "fst (resolveNecessaryImports
            (importResolver (tokenFiles x y) [\<lparr>original = ''@lib/'', resolved = ''lib/token/''\<rparr>]))
       = [(''@lib/Token.sol'', File \<lparr>content = y\<rparr>),
          (''Main.sol'',
           File \<lparr>content = ''import '' @ [CHR 0x22] @ ''@lib/Token.sol'' @ [CHR 0x22] @ '';''\<rparr>)]"
    unfolding resolveNecessaryImports_def token_available token_seeds r
    using assms m
    by (simp add: getProp_def contentText_def setProp_def defineProperty_def isArrayIndex_def
        enqueueImports_def enqueueImport_def resolveImportPath_def directImport_def)
qed

theorem remapped_token_entry_witness:
  "extractImports ''contract Token { uint b; }'' = []
   \<and> fst (resolveNecessaryImports
            (importResolver (tokenFiles ''contract Token { uint a; }'' ''contract Token { uint b; }'')
               [\<lparr>original = ''@lib/'', resolved = ''lib/token/''\<rparr>]))
     = [(''@lib/Token.sol'', File \<lparr>content = ''contract Token { uint b; }''\<rparr>),
        (''Main.sol'',
         File \<lparr>content = ''import '' @ [CHR 0x22] @ ''@lib/Token.sol'' @ [CHR 0x22] @ '';''\<rparr>)]"
proof -
  have e: "extractImports ''contract Token { uint b; }'' = []"
    by code_simp
  show ?thesis
    using e remapped_token_entry [OF e, of "''contract Token { uint a; }''"] by simp
qed

text \<open>
  C2 as stated fails: the rule parses to the original \<open>@lib/\<close> and the resolved
  \<open>lib/token/\<close>; the result has no key \<open>lib/token/Token.sol\<close>, and its one Token entry,
  at \<open>@lib/Token.sol\<close>, holds the content given at \<open>lib/token/Token.sol\<close>.
\<close>

theorem remapped_token_counterexample:
  "parseRemappings [''@lib/=lib/token/''] = Inr [\<lparr>original = ''@lib/'', resolved = ''lib/token/''\<rparr>]
   \<and> map fst (fst (resolveNecessaryImports
            (importResolver (tokenFiles ''contract Token { uint a; }'' ''contract Token { uint b; }'')
               [\<lparr>original = ''@lib/'', resolved = ''lib/token/''\<rparr>])))
     = [''@lib/Token.sol'', ''Main.sol'']
   \<and> map_of (fst (resolveNecessaryImports
            (importResolver (tokenFiles ''contract Token { uint a; }'' ''contract Token { uint b; }'')
               [\<lparr>original = ''@lib/'', resolved = ''lib/token/''\<rparr>]))) ''lib/token/Token.sol''
     = None
   \<and> map_of (fst (resolveNecessaryImports
            (importResolver (tokenFiles ''contract Token { uint a; }'' ''contract Token { uint b; }'')
               [\<lparr>original = ''@lib/'', resolved = ''lib/token/''\<rparr>]))) ''@lib/Token.sol''
     = Some (File \<lparr>content = ''contract Token { uint b; }''\<rparr>)"
  by code_simp

text \<open>
  Every entry of the result is what a read of the combined available files at its key
  finds: a source file of that map, or a member of \<open>Object.prototype\<close> whose name is not
  a key of the map.
\<close>

lemma resolveNecessaryImports_entries:
  assumes "(k, e) \<in> set (fst (resolveNecessaryImports resolver))"
  shows "getProp (allAvailableFiles resolver) k = Some e"
proof -
  have "\<forall>(k, e) \<in> set (fst (traverse (ImportResolver.remappings resolver)
      (allAvailableFiles resolver) [] [] (seedQueue resolver) [])).
      getProp (allAvailableFiles resolver) k = Some e"
    by (rule traverse_entries) simp
  then show ?thesis using assms unfolding resolveNecessaryImports_def by blast
qed

lemma resolveNecessaryImports_files:
  assumes "(k, File f) \<in> set (fst (resolveNecessaryImports resolver))"
  shows "map_of (allAvailableFiles resolver) k = Some f"
  using resolveNecessaryImports_entries [OF assms]
  by (auto simp: getProp_def split: option.splits if_splits)

lemma resolveNecessaryImports_inherited:
  assumes "(k, Inherited n) \<in> set (fst (resolveNecessaryImports resolver))"
  shows "k \<notin> fst ` set (allAvailableFiles resolver) \<and> k \<in> set objectPrototypeNames \<and> n = k"
  using resolveNecessaryImports_entries [OF assms]
  by (auto simp: getProp_def map_of_eq_None_iff split: option.splits if_splits)

text \<open>
  C10. The claim: every key of the result of \<open>resolveNecessaryImports\<close> is a key of the
  combined available files, with the content stored there. The code adds the current path
  whenever the read \<open>allAvailableFiles[currentFile]\<close> is truthy, and the strategies
  resolve an import the same way; such a read also finds the members of
  \<open>Object.prototype\<close>. For one file \<open>A.sol\<close> that imports \<open>toString\<close>, the result
  has the key \<open>toString\<close>, which is not a key of the combined available files.
\<close>

theorem resolveNecessaryImports_prototype_member:
  \<open>fst (resolveNecessaryImports
          (importResolver [(''A.sol'', \<lparr>content = ''import "toString";''\<rparr>)] []))
     = [(''A.sol'', File \<lparr>content = ''import "toString";''\<rparr>),
        (''toString'', Inherited ''toString'')]
   \<and> allAvailableFiles (importResolver [(''A.sol'', \<lparr>content = ''import "toString";''\<rparr>)] [])
     = [(''A.sol'', \<lparr>content = ''import "toString";''\<rparr>)]\<close>
  by code_simp

section \<open>Properties of resolveRemappedImport\<close>

lemma indexOf_prefix: "prefix p s \<Longrightarrow> indexOf s p = Some 0"
  by (cases s) auto

lemma getSubstitution_plain:
  "CHR ''$'' \<notin> set repl \<Longrightarrow> getSubstitution matched pre post repl = repl"
  by (induction matched pre post repl rule: getSubstitution.induct) auto

lemma replace_prefix:
  assumes "prefix p s"
  shows "replace s p repl = getSubstitution p [] (drop (length p) s) repl @ drop (length p) s"
  using indexOf_prefix [OF assms] by (simp add: replace_def)

lemma replace_prefix_plain:
  assumes "prefix p s" and "CHR ''$'' \<notin> set repl"
  shows "replace s p repl = repl @ drop (length p) s"
  using replace_prefix [OF assms(1)] getSubstitution_plain [OF assms(2)] by simp

lemma sort_key_head:
  assumes "sort_key f xs = m # rest"
  shows "m \<in> set xs \<and> (\<forall>x \<in> set xs. f m \<le> f x) \<and> m = hd (filter (\<lambda>x. f x = f m) xs)"
proof -
  have "sorted (map f (sort_key f xs))"
    by (rule sorted_sort_key)
  then have s: "\<forall>x \<in> set rest. f m \<le> f x"
    unfolding assms by simp
  have "set (sort_key f xs) = set xs"
    by (rule set_sort)
  then have e: "set xs = insert m (set rest)"
    unfolding assms by simp
  have "filter (\<lambda>x. f x = f m) (sort_key f xs) = filter (\<lambda>x. f x = f m) xs"
    by (rule sort_key_stable)
  then have "filter (\<lambda>x. f x = f m) xs = m # filter (\<lambda>x. f x = f m) rest"
    unfolding assms by simp
  then have h: "m = hd (filter (\<lambda>x. f x = f m) xs)"
    by simp
  have a: "m \<in> set xs" unfolding e by simp
  have b: "\<forall>x \<in> set xs. f m \<le> f x" unfolding e using s by simp
  show ?thesis by (intro conjI a b h)
qed


lemma sort_key_Nil: "(sort_key f xs = []) = (xs = [])"
  by (cases xs) auto

lemma resolveRemappedImport_longest:
  "resolveRemappedImport i rms =
     (if filter (\<lambda>m. prefix (original m) i) rms = [] then None
      else Some (replace i
        (original (hd (sort_key (\<lambda>m. - int (length (original m)))
                         (filter (\<lambda>m. prefix (original m) i) rms))))
        (resolved (hd (sort_key (\<lambda>m. - int (length (original m)))
                         (filter (\<lambda>m. prefix (original m) i) rms))))))"
proof (cases "sort_key (\<lambda>m. - int (length (original m))) (filter (\<lambda>m. prefix (original m) i) rms)")
  case Nil
  then have "filter (\<lambda>m. prefix (original m) i) rms = []"
    by (simp only: sort_key_Nil)
  then show ?thesis by (simp add: resolveRemappedImport_def)
next
  case (Cons m rest)
  then have "sort_key (\<lambda>m. - int (length (original m)))
      (filter (\<lambda>m. prefix (original m) i) rms) \<noteq> []"
    by simp
  then have "filter (\<lambda>m. prefix (original m) i) rms \<noteq> []"
    by (simp only: sort_key_Nil not_False_eq_True)
  then show ?thesis using Cons by (simp add: resolveRemappedImport_def)
qed

text \<open>
  The rule that \<open>resolveRemappedImport\<close> selects: among the rules whose original is a
  prefix of the import it has the longest original, and it is the first such rule in the
  order of declaration. Where its resolved text contains no \<open>$\<close>, the prefix is replaced
  by the resolved text.
\<close>

lemma resolveRemappedImport_selected:
  assumes "filter (\<lambda>m. prefix (original m) i) rms \<noteq> []"
  defines "m \<equiv> hd (sort_key (\<lambda>m. - int (length (original m)))
                     (filter (\<lambda>m. prefix (original m) i) rms))"
  shows "m \<in> set rms \<and> prefix (original m) i
    \<and> (\<forall>m' \<in> set rms. prefix (original m') i \<longrightarrow> length (original m') \<le> length (original m))
    \<and> m = hd (filter (\<lambda>m'. prefix (original m') i \<and> length (original m') = length (original m)) rms)
    \<and> (CHR ''$'' \<notin> set (resolved m)
         \<longrightarrow> resolveRemappedImport i rms = Some (resolved m @ drop (length (original m)) i))"
proof -
  let ?ms = "filter (\<lambda>m. prefix (original m) i) rms"
  let ?f = "\<lambda>m. - int (length (original m))"
  have "sort_key ?f ?ms \<noteq> []"
    using assms(1) by (simp only: sort_key_Nil not_False_eq_True)
  then have "sort_key ?f ?ms = m # tl (sort_key ?f ?ms)"
    unfolding m_def by simp
  then obtain rest where c: "sort_key ?f ?ms = m # rest"
    by blast
  from sort_key_head [OF c]
  have a: "m \<in> set ?ms" and b: "\<forall>x \<in> set ?ms. ?f m \<le> ?f x"
    and h: "m = hd (filter (\<lambda>x. ?f x = ?f m) ?ms)"
    by auto
  have h': "filter (\<lambda>x. ?f x = ?f m) ?ms
      = filter (\<lambda>m'. prefix (original m') i \<and> length (original m') = length (original m)) rms"
    by (auto intro: filter_cong)
  have r: "CHR ''$'' \<notin> set (resolved m)
         \<longrightarrow> resolveRemappedImport i rms = Some (resolved m @ drop (length (original m)) i)"
    using assms(1) a replace_prefix_plain [of "original m" i "resolved m"]
    unfolding resolveRemappedImport_longest m_def by simp
  have a1: "m \<in> set rms" and a2: "prefix (original m) i"
    using a by auto
  have b': "\<forall>m' \<in> set rms. prefix (original m') i
      \<longrightarrow> length (original m') \<le> length (original m)"
    using b by auto
  have h2: "m = hd (filter (\<lambda>m'. prefix (original m') i
      \<and> length (original m') = length (original m)) rms)"
    using h unfolding h' .
  show ?thesis by (intro conjI a1 a2 b' h2 r)
qed

lemma resolveRemappedImport_example:
  "resolveRemappedImport ''@oz/utils/Math.sol''
     [\<lparr>original = ''@oz/'', resolved = ''lib/a/''\<rparr>,
      \<lparr>original = ''@oz/utils/'', resolved = ''lib/b/''\<rparr>] = Some ''lib/b/Math.sol''"
  by code_simp

text \<open>
  C6. The claim: the remapped-import strategy selects the matching rule with the longest
  original (the first declared among equals) and replaces that prefix of the import with
  the resolved text of the rule. The code replaces with \<open>String.prototype.replace\<close>, which
  reads \<open>$&\<close> in the resolved text as the matched prefix: with the rule
  \<open>@a/=lib/$&\<close>, the import \<open>@a/X.sol\<close> becomes \<open>lib/@a/X.sol\<close>, where replacing
  the prefix by the resolved text gives \<open>lib/$&X.sol\<close>.
\<close>

theorem resolveRemappedImport_dollar:
  "parseRemappings [''@a/=lib/$&''] = Inr [\<lparr>original = ''@a/'', resolved = ''lib/$&''\<rparr>]
   \<and> resolveRemappedImport ''@a/X.sol'' [\<lparr>original = ''@a/'', resolved = ''lib/$&''\<rparr>]
     = Some ''lib/@a/X.sol''
   \<and> ''lib/$&'' @ drop (length ''@a/'') ''@a/X.sol'' = ''lib/$&X.sol''"
  by code_simp

end
